theory Spec2Isabelle
  imports
    Main
    "HOL-Library.AList"
    "HOL-Library.Char_ord"
    "HOL-Library.List_Lexorder"
    "HOL-Library.Product_Lexorder"
begin

section \<open>Strings\<close>

text \<open>
  A \<open>char\<close> stands for one code unit below 256. The white space that
  \<open>String.prototype.trim\<close> strips is, in that range, TAB, LF, VT, FF, CR, SPACE and
  NO-BREAK SPACE. Strings are compared code unit by code unit, as IndexedDB compares
  string keys.
\<close>

definition isWhiteSpace :: "char \<Rightarrow> bool" where
  "isWhiteSpace c = ((of_char c :: nat) \<in> {9, 10, 11, 12, 13, 32, 160})"

definition trim :: "string \<Rightarrow> string" where
  "trim s = rev (dropWhile isWhiteSpace (rev (dropWhile isWhiteSpace s)))"

section \<open>Entries and the IndexedDB database\<close>

text \<open>
  The object literal that the component's \<open>saveEntry\<close> builds, and the record as the
  object store holds it: the same object with the generated key written at the key path
  \<open>id\<close> (field \<open>id'\<close>).
\<close>

record entry =
  type :: string
  content :: string
  timestamp :: string
  synced :: bool

record stored_entry = entry +
  id' :: nat

datatype error =
  TypeError | NotFoundError | VersionError | AbortError | ConstraintError | DataError
  | InvalidStateError | QuotaExceededError | UnknownError

text \<open>
  What the browser may do to a storage call, chosen outside the program: throw from the
  call itself, or accept the request and fire its error event later.
\<close>

datatype fault = Throws error | Fails error

text \<open>How the \<open>IDBRequest\<close> returned by \<open>add\<close> ends: with the record's key, or with an error.\<close>

datatype IDBRequest = Done nat | Failed error

record index =
  name :: string
  index_keyPath :: string
  unique :: bool

record object_store =
  keyPath :: string
  autoIncrement :: bool
  indexes :: "index list"
  records :: "stored_entry list"
  keyGenerator :: nat

record database =
  current_version :: nat
  objectStores :: "(string \<times> object_store) list"

definition objectStoreNames :: "database \<Rightarrow> string list" where
  "objectStoreNames d = map fst (objectStores d)"

definition indexNames :: "object_store \<Rightarrow> string list" where
  "indexNames st = map name (indexes st)"

text \<open>
  \<open>createObjectStore\<close> and \<open>createIndex\<close> refuse a name that is already there. A new
  store is empty and its key generator starts at 1.
\<close>

definition createObjectStore :: "string \<Rightarrow> string \<Rightarrow> bool \<Rightarrow> database \<Rightarrow> error + database" where
  "createObjectStore n kp ai d =
     (if n \<in> set (objectStoreNames d) then Inl ConstraintError
      else Inr (d\<lparr>objectStores := objectStores d @
                  [(n, \<lparr>keyPath = kp, autoIncrement = ai, indexes = [], records = [],
                        keyGenerator = 1\<rparr>)]\<rparr>))"

definition createIndex :: "string \<Rightarrow> string \<Rightarrow> bool \<Rightarrow> object_store \<Rightarrow> error + object_store" where
  "createIndex n kp u st =
     (if n \<in> set (indexNames st) then Inl ConstraintError
      else Inr (st\<lparr>indexes := indexes st @ [\<lparr>name = n, index_keyPath = kp, unique = u\<rparr>]\<rparr>))"

definition objectStore :: "string \<Rightarrow> database \<Rightarrow> error + object_store" where
  "objectStore n d = (case map_of (objectStores d) n of None \<Rightarrow> Inl NotFoundError | Some st \<Rightarrow> Inr st)"

definition put_store :: "string \<Rightarrow> object_store \<Rightarrow> database \<Rightarrow> database" where
  "put_store n st d = d\<lparr>objectStores := AList.update n st (objectStores d)\<rparr>"

text \<open>
  The key of a record in an index is the value at the index's key path. Only the
  string-valued fields are key paths here (the program indexes \<open>timestamp\<close> and
  \<open>type\<close>); a record without a key at the path is not in the index.
\<close>

definition index_key :: "string \<Rightarrow> stored_entry \<Rightarrow> string option" where
  "index_key kp r =
     (if kp = ''timestamp'' then Some (timestamp r)
      else if kp = ''type'' then Some (type r)
      else if kp = ''content'' then Some (content r)
      else None)"

text \<open>
  An index holds its records ordered by index key, and by primary key among equal index
  keys. A cursor opened with direction \<open>prev\<close> walks them from the last to the first.
\<close>

definition index_records :: "index \<Rightarrow> object_store \<Rightarrow> stored_entry list" where
  "index_records ix st =
     sort_key (\<lambda>r. (the (index_key (index_keyPath ix) r), id' r))
       (filter (\<lambda>r. index_key (index_keyPath ix) r \<noteq> None) (records st))"

definition openCursor_prev :: "index \<Rightarrow> object_store \<Rightarrow> stored_entry list" where
  "openCursor_prev ix st = rev (index_records ix st)"

definition get_index :: "string \<Rightarrow> object_store \<Rightarrow> error + index" where
  "get_index n st =
     (case find (\<lambda>ix. name ix = n) (indexes st) of
        None \<Rightarrow> Inl NotFoundError | Some ix \<Rightarrow> Inr ix)"

text \<open>
  \<open>store.add(value)\<close> for a value without a key: without a key generator the call
  throws; with one, the record gets the generator's current number, which then advances.
  The request fails when the browser says so (quota, exhausted generator, I/O) or when a
  unique index already holds the record's key; a failed request leaves the store as it was.
\<close>

definition violates_unique :: "stored_entry \<Rightarrow> object_store \<Rightarrow> bool" where
  "violates_unique r st =
     (\<exists>ix \<in> set (indexes st). unique ix \<and> index_key (index_keyPath ix) r \<noteq> None \<and>
        (\<exists>r' \<in> set (records st).
           index_key (index_keyPath ix) r' = index_key (index_keyPath ix) r))"

definition add :: "error option \<Rightarrow> entry \<Rightarrow> object_store \<Rightarrow> error + (IDBRequest \<times> object_store)" where
  "add fails e st =
     (if \<not> autoIncrement st then Inl DataError
      else
        let r = \<lparr>type = type e, content = content e, timestamp = timestamp e,
                 synced = synced e, id' = keyGenerator st\<rparr>
        in case fails of
             Some err \<Rightarrow> Inr (Failed err, st)
           | None \<Rightarrow>
               if violates_unique r st then Inr (Failed ConstraintError, st)
               else Inr (Done (keyGenerator st),
                         st\<lparr>records := records st @ [r],
                            keyGenerator := keyGenerator st + 1\<rparr>))"

section \<open>LoggerDB\<close>

text \<open>
  The class \<open>LoggerDB\<close>. Field \<open>db\<close> tells whether \<open>this.db\<close> holds a connection
  (\<open>null\<close> before \<open>init\<close>); \<open>indexedDB\<close> is the browser's database of name \<open>dbName\<close>,
  of version 0 and without object stores as long as it was never opened.
\<close>

record LoggerDB =
  dbName :: string
  version :: nat
  db :: bool
  indexedDB :: database

definition new_database :: database where
  "new_database = \<lparr>current_version = 0, objectStores = []\<rparr>"

definition new_LoggerDB :: "database \<Rightarrow> LoggerDB" where
  "new_LoggerDB d = \<lparr>dbName = ''PersonalLogger'', version = 1, db = False, indexedDB = d\<rparr>"

definition onupgradeneeded :: "database \<Rightarrow> error + database" where
  "onupgradeneeded d =
     (if ''entries'' \<notin> set (objectStoreNames d) then
        (case createObjectStore ''entries'' ''id'' True d of
           Inl err \<Rightarrow> Inl err
         | Inr d1 \<Rightarrow>
            (case objectStore ''entries'' d1 of
               Inl err \<Rightarrow> Inl err
             | Inr store \<Rightarrow>
                (case createIndex ''timestamp'' ''timestamp'' False store of
                   Inl err \<Rightarrow> Inl err
                 | Inr store1 \<Rightarrow>
                    (case createIndex ''type'' ''type'' False store1 of
                       Inl err \<Rightarrow> Inl err
                     | Inr store2 \<Rightarrow> Inr (put_store ''entries'' store2 d1)))))
      else Inr d)"

text \<open>
  \<open>init\<close>: \<open>indexedDB.open(dbName, version)\<close>. The request fails when the browser says
  so, or with \<open>VersionError\<close> when the database is newer than the requested version; it
  runs \<open>onupgradeneeded\<close> when the database is older (an exception there aborts the
  upgrade and the open); otherwise it succeeds at once. On success \<open>this.db\<close> is set.
\<close>

definition LoggerDB_init :: "error option \<Rightarrow> LoggerDB \<Rightarrow> error + LoggerDB" where
  "LoggerDB_init fails L =
     (case fails of
        Some err \<Rightarrow> Inl err
      | None \<Rightarrow>
          if version L < current_version (indexedDB L) then Inl VersionError
          else if current_version (indexedDB L) < version L then
            (case onupgradeneeded (indexedDB L) of
               Inl err \<Rightarrow> Inl AbortError
             | Inr d \<Rightarrow> Inr (L\<lparr>db := True, indexedDB := d\<lparr>current_version := version L\<rparr>\<rparr>))
          else Inr (L\<lparr>db := True\<rparr>))"

text \<open>
  \<open>saveEntry\<close>: the transaction throws when \<open>this.db\<close> is \<open>null\<close>, when the browser
  says so, and when there is no store \<open>entries\<close>. The method returns the \<open>IDBRequest\<close>
  of \<open>add\<close> itself, which is no promise: the caller that awaits it goes on at once,
  whether the request later succeeds or fails.
\<close>

definition LoggerDB_saveEntry :: "fault option \<Rightarrow> entry \<Rightarrow> LoggerDB \<Rightarrow> error + (IDBRequest \<times> LoggerDB)" where
  "LoggerDB_saveEntry f entry L =
     (if \<not> db L then Inl TypeError
      else case f of
        Some (Throws err) \<Rightarrow> Inl err
      | _ \<Rightarrow>
        (case objectStore ''entries'' (indexedDB L) of
           Inl err \<Rightarrow> Inl err
         | Inr store \<Rightarrow>
            (case add (case f of Some (Fails err) \<Rightarrow> Some err | _ \<Rightarrow> None) entry store of
               Inl err \<Rightarrow> Inl err
             | Inr (req, store') \<Rightarrow>
                 Inr (req, L\<lparr>indexedDB := put_store ''entries'' store' (indexedDB L)\<rparr>))))"

text \<open>
  The cursor loop of \<open>getRecentEntries\<close>: \<open>entries\<close> collects values while the cursor
  points at a record and \<open>entries.length < limit\<close>.
\<close>

fun cursor_loop :: "int \<Rightarrow> stored_entry list \<Rightarrow> stored_entry list \<Rightarrow> stored_entry list" where
  "cursor_loop limit entries [] = entries"
| "cursor_loop limit entries (v # cursor) =
     (if int (length entries) < limit then cursor_loop limit (entries @ [v]) cursor
      else entries)"

text \<open>
  \<open>getRecentEntries(limit = 10)\<close>: the argument \<open>None\<close> is the omitted one. The promise
  is rejected when \<open>this.db\<close> is \<open>null\<close>, when the store or its index \<open>timestamp\<close> is
  missing, and when the browser fails the transaction or the cursor request.
\<close>

definition LoggerDB_getRecentEntries :: "error option \<Rightarrow> int option \<Rightarrow> LoggerDB \<Rightarrow> error + stored_entry list" where
  "LoggerDB_getRecentEntries fails limit_arg L =
     (let limit = (case limit_arg of None \<Rightarrow> 10 | Some l \<Rightarrow> l) in
      if \<not> db L then Inl TypeError
      else case fails of
        Some err \<Rightarrow> Inl err
      | None \<Rightarrow>
        (case objectStore ''entries'' (indexedDB L) of
           Inl err \<Rightarrow> Inl err
         | Inr store \<Rightarrow>
            (case get_index ''timestamp'' store of
               Inl err \<Rightarrow> Inl err
             | Inr ix \<Rightarrow> Inr (cursor_loop limit [] (openCursor_prev ix store)))))"

section \<open>The component\<close>

text \<open>
  The state of the Alpine component \<open>logger\<close> that the operations below read or write;
  \<open>logger_db\<close> is its field \<open>db\<close>.
\<close>

record logger =
  showModal :: bool
  currentType :: string
  entryText :: string
  isLoading :: bool
  showToast :: bool
  toastMessage :: string
  recentEntries :: "stored_entry list"
  logger_db :: LoggerDB

definition new_logger :: "database \<Rightarrow> logger" where
  "new_logger d =
     \<lparr>showModal = False, currentType = [], entryText = [], isLoading = False,
      showToast = False, toastMessage = [], recentEntries = [],
      logger_db = new_LoggerDB d\<rparr>"

text \<open>\<open>showToastMessage\<close> shows the message; the timer that hides it again is left out.\<close>

definition showToastMessage :: "string \<Rightarrow> logger \<Rightarrow> logger" where
  "showToastMessage message s = s\<lparr>toastMessage := message, showToast := True\<rparr>"

definition quickEntry :: "string \<Rightarrow> logger \<Rightarrow> logger" where
  "quickEntry t s = s\<lparr>currentType := t, entryText := [], showModal := True\<rparr>"

definition closeModal :: "logger \<Rightarrow> logger" where
  "closeModal s = s\<lparr>showModal := False, entryText := [], currentType := []\<rparr>"

definition useTemplate :: "string \<Rightarrow> logger \<Rightarrow> logger" where
  "useTemplate template s = s\<lparr>entryText := template\<rparr>"

text \<open>\<open>loadRecentEntries\<close> catches a failed read and keeps the list it has.\<close>

definition loadRecentEntries :: "error option \<Rightarrow> logger \<Rightarrow> logger" where
  "loadRecentEntries read_fails s =
     (case LoggerDB_getRecentEntries read_fails (Some 10) (logger_db s) of
        Inl err \<Rightarrow> s
      | Inr es \<Rightarrow> s\<lparr>recentEntries := es\<rparr>)"

definition logger_init :: "error option \<Rightarrow> error option \<Rightarrow> logger \<Rightarrow> logger" where
  "logger_init open_fails read_fails s =
     (case LoggerDB_init open_fails (logger_db s) of
        Inl err \<Rightarrow> showToastMessage ''Failed to initialize app'' s
      | Inr L \<Rightarrow> loadRecentEntries read_fails (s\<lparr>logger_db := L\<rparr>))"

text \<open>
  The component's \<open>saveEntry\<close>; \<open>now\<close> is \<open>new Date().toISOString()\<close>. Only an
  exception thrown by \<open>db.saveEntry\<close> reaches the \<open>catch\<close>: the awaited value is the
  pending request, so the list is reloaded and success is announced whether the request
  ends well or not. The reload reads after the write transaction has ended.
\<close>

definition saveEntry :: "fault option \<Rightarrow> error option \<Rightarrow> string \<Rightarrow> logger \<Rightarrow> logger" where
  "saveEntry write_fault read_fails now s =
     (if trim (entryText s) = [] then showToastMessage ''Please enter some text'' s
      else
        let s1 = s\<lparr>isLoading := True\<rparr>;
            entry = \<lparr>type = currentType s1, content = trim (entryText s1),
                     timestamp = now, synced = False\<rparr>;
            s2 = (case LoggerDB_saveEntry write_fault entry (logger_db s1) of
                    Inl err \<Rightarrow> showToastMessage ''Failed to save entry'' s1
                  | Inr (req, L) \<Rightarrow>
                      showToastMessage ''Entry saved successfully''
                        (closeModal (loadRecentEntries read_fails (s1\<lparr>logger_db := L\<rparr>))))
        in s2\<lparr>isLoading := False\<rparr>)"

section \<open>Observations and invariants\<close>

text \<open>The records and the key generator of the store \<open>entries\<close> (none without the store).\<close>

definition stored :: "LoggerDB \<Rightarrow> stored_entry list" where
  "stored L = (case objectStore ''entries'' (indexedDB L) of Inl err \<Rightarrow> [] | Inr st \<Rightarrow> records st)"

definition generator :: "LoggerDB \<Rightarrow> nat" where
  "generator L = (case objectStore ''entries'' (indexedDB L) of Inl err \<Rightarrow> 0 | Inr st \<Rightarrow> keyGenerator st)"

text \<open>A run of calls of \<open>LoggerDB.saveEntry\<close>, each with the browser's choice and its entry.\<close>

fun saveEntry_calls :: "(fault option \<times> entry) list \<Rightarrow> LoggerDB \<Rightarrow> LoggerDB" where
  "saveEntry_calls [] L = L"
| "saveEntry_calls ((f, e) # calls) L =
     saveEntry_calls calls
       (case LoggerDB_saveEntry f e L of Inl err \<Rightarrow> L | Inr (req, L') \<Rightarrow> L')"

text \<open>
  The store \<open>entries\<close> as \<open>init\<close> creates it and \<open>add\<close> keeps it: the schema of
  \<open>onupgradeneeded\<close>, keys in increasing order, all below the key generator.
\<close>

definition entries_schema :: "index list" where
  "entries_schema =
     [\<lparr>name = ''timestamp'', index_keyPath = ''timestamp'', unique = False\<rparr>,
      \<lparr>name = ''type'', index_keyPath = ''type'', unique = False\<rparr>]"

definition store_ok :: "object_store \<Rightarrow> bool" where
  "store_ok st =
     (keyPath st = ''id'' \<and> autoIncrement st \<and> indexes st = entries_schema \<and>
      sorted_wrt (<) (map id' (records st)) \<and>
      (\<forall>r \<in> set (records st). id' r < keyGenerator st))"

definition database_ok :: "database \<Rightarrow> bool" where
  "database_ok d =
     (distinct (objectStoreNames d) \<and>
      (case objectStore ''entries'' d of Inl err \<Rightarrow> False | Inr st \<Rightarrow> store_ok st))"

text \<open>The order of \<open>listRecent\<close>: later timestamp first, higher id first among equal ones.\<close>

definition more_recent :: "stored_entry \<Rightarrow> stored_entry \<Rightarrow> bool" where
  "more_recent a b =
     (timestamp b < timestamp a \<or> (timestamp a = timestamp b \<and> id' b < id' a))"

text \<open>The key that orders the index \<open>timestamp\<close>: index key, then primary key.\<close>

definition recency_key :: "stored_entry \<Rightarrow> string \<times> nat" where
  "recency_key r = (timestamp r, id' r)"

section \<open>Example states\<close>

text \<open>
  A store of three entries: the second was saved after the clock had been set back, the
  third in the same millisecond as the first.
\<close>

definition example_records :: "stored_entry list" where
  "example_records =
     [\<lparr>type = ''issue'', content = ''Fryer is down'',
       timestamp = ''2025-03-01T09:00:00.000Z'', synced = False, id' = 1\<rparr>,
      \<lparr>type = ''task'', content = ''Call supplier'',
       timestamp = ''2025-03-01T08:30:00.000Z'', synced = False, id' = 2\<rparr>,
      \<lparr>type = ''note'', content = ''Shift handover'',
       timestamp = ''2025-03-01T09:00:00.000Z'', synced = False, id' = 3\<rparr>]"

definition example_database :: database where
  "example_database =
     \<lparr>current_version = 1,
      objectStores =
        [(''entries'',
          \<lparr>keyPath = ''id'', autoIncrement = True, indexes = entries_schema,
            records = example_records, keyGenerator = 4\<rparr>)]\<rparr>"

definition example_LoggerDB :: LoggerDB where
  "example_LoggerDB =
     \<lparr>dbName = ''PersonalLogger'', version = 1, db = True, indexedDB = example_database\<rparr>"

text \<open>The component with the modal open on a note, its list in step with the store.\<close>

definition example_logger :: logger where
  "example_logger =
     \<lparr>showModal = True, currentType = ''note'', entryText = '' Restocked napkins '',
      isLoading = False, showToast = False, toastMessage = [],
      recentEntries = [example_records ! 2, example_records ! 0, example_records ! 1],
      logger_db = example_LoggerDB\<rparr>"

text \<open>
  The component opened over that store when its first read failed: the list is empty
  although the store is not. Then a note is typed.
\<close>

definition stale_logger :: logger where
  "stale_logger =
     (quickEntry ''note'' (logger_init None (Some UnknownError) (new_logger example_database)))
       \<lparr>entryText := ''Restocked napkins''\<rparr>"

section \<open>Strings and the cursor loop\<close>

lemma trim_empty_iff: "trim s = [] \<longleftrightarrow> (\<forall>c \<in> set s. isWhiteSpace c)"
proof
  assume "trim s = []"
  then have all: "\<forall>c \<in> set (dropWhile isWhiteSpace s). isWhiteSpace c"
    by (simp add: trim_def)
  have "dropWhile isWhiteSpace s = []"
  proof (rule ccontr)
    assume ne: "dropWhile isWhiteSpace s \<noteq> []"
    then have "\<not> isWhiteSpace (hd (dropWhile isWhiteSpace s))" by (rule hd_dropWhile)
    moreover have "hd (dropWhile isWhiteSpace s) \<in> set (dropWhile isWhiteSpace s)"
      using ne by simp
    ultimately show False using all by blast
  qed
  then show "\<forall>c \<in> set s. isWhiteSpace c" by simp
next
  assume "\<forall>c \<in> set s. isWhiteSpace c"
  then show "trim s = []" by (auto simp: trim_def dest: set_dropWhileD)
qed

text \<open>The loop takes the first \<open>limit\<close> records under the cursor, none for a limit below 1.\<close>

lemma cursor_loop_take:
  "cursor_loop limit acc cur = acc @ take (nat limit - length acc) cur"
proof (induction cur arbitrary: acc)
  case Nil
  show ?case by simp
next
  case (Cons v cur)
  show ?case
  proof (cases "int (length acc) < limit")
    case True
    then have "nat limit - length acc = Suc (nat limit - Suc (length acc))" by linarith
    with True Cons show ?thesis by simp
  next
    case False
    then have "nat limit - length acc = 0" by linarith
    with False show ?thesis by simp
  qed
qed

lemma insort_key_snoc:
  "f x < f y \<Longrightarrow> insort_key f x (zs @ [y]) = insort_key f x zs @ [y]"
  by (induction zs) auto

lemma sort_key_snoc:
  "\<forall>x \<in> set xs. f x < f y \<Longrightarrow> sort_key f (xs @ [y]) = sort_key f xs @ [y]"
proof (induction xs)
  case Nil
  show ?case by simp
next
  case (Cons x xs)
  then show ?case by (simp add: insort_key_snoc)
qed

section \<open>Object stores\<close>

lemma objectStore_put_store: "objectStore n (put_store n st d) = Inr st"
  by (simp add: objectStore_def put_store_def update_conv')

lemma objectStoreNames_put_store:
  "n \<in> set (objectStoreNames d) \<Longrightarrow> objectStoreNames (put_store n st d) = objectStoreNames d"
  by (simp add: objectStoreNames_def put_store_def update_keys)

lemma objectStore_Inr_name:
  "objectStore n d = Inr st \<Longrightarrow> n \<in> set (objectStoreNames d)"
  by (auto simp: objectStore_def objectStoreNames_def split: option.splits
      dest: map_of_SomeD intro: rev_image_eqI)

lemma put_store_same: "objectStore n d = Inr st \<Longrightarrow> put_store n st d = d"
  by (simp add: objectStore_def put_store_def update_triv split: option.splits)

lemma store_ok_not_violates: "store_ok st \<Longrightarrow> \<not> violates_unique r st"
  by (simp add: store_ok_def violates_unique_def entries_schema_def)

lemma add_ok:
  "store_ok st \<Longrightarrow>
   add None e st =
     Inr (Done (keyGenerator st),
          st\<lparr>records := records st @
                 [\<lparr>type = type e, content = content e, timestamp = timestamp e,
                   synced = synced e, id' = keyGenerator st\<rparr>],
             keyGenerator := keyGenerator st + 1\<rparr>)"
  by (simp add: add_def store_ok_not_violates) (simp add: store_ok_def)

lemma add_failed: "add fails e st = Inr (Failed err, st') \<Longrightarrow> st' = st"
  by (auto simp: add_def Let_def split: if_splits option.splits)

lemma add_done:
  "add fails e st = Inr (Done k, st') \<Longrightarrow>
   k = keyGenerator st \<and> keyGenerator st' = Suc k \<and>
   records st' = records st @
     [\<lparr>type = type e, content = content e, timestamp = timestamp e,
       synced = synced e, id' = k\<rparr>] \<and>
   keyPath st' = keyPath st \<and> autoIncrement st' = autoIncrement st \<and> indexes st' = indexes st"
  by (auto simp: add_def Let_def split: if_splits option.splits)

lemma add_store_ok:
  assumes "store_ok st" and "add fails e st = Inr (req, st')"
  shows "store_ok st'"
proof (cases req)
  case (Failed err)
  with assms show ?thesis by (auto dest: add_failed)
next
  case (Done k)
  with assms(2) have d: "k = keyGenerator st" "keyGenerator st' = Suc k"
    "records st' = records st @
       [\<lparr>type = type e, content = content e, timestamp = timestamp e,
         synced = synced e, id' = k\<rparr>]"
    "keyPath st' = keyPath st" "autoIncrement st' = autoIncrement st" "indexes st' = indexes st"
    using add_done by blast+
  from assms(1) d show ?thesis
    by (auto simp: store_ok_def sorted_wrt_append less_Suc_eq)
qed

section \<open>The invariant of the database\<close>

lemma saveEntry_cases:
  assumes "LoggerDB_saveEntry f e L = Inr (req, L')"
  obtains st st' where "db L" and "objectStore ''entries'' (indexedDB L) = Inr st"
    and "add (case f of Some (Fails err) \<Rightarrow> Some err | _ \<Rightarrow> None) e st = Inr (req, st')"
    and "L' = L\<lparr>indexedDB := put_store ''entries'' st' (indexedDB L)\<rparr>"
  using assms
  by (auto simp: LoggerDB_saveEntry_def split: if_splits option.splits fault.splits sum.splits)

lemma saveEntry_database_ok:
  assumes "database_ok (indexedDB L)" and "LoggerDB_saveEntry f e L = Inr (req, L')"
  shows "database_ok (indexedDB L')"
proof -
  from assms(2) obtain st st' where st: "objectStore ''entries'' (indexedDB L) = Inr st"
    and a: "add (case f of Some (Fails err) \<Rightarrow> Some err | _ \<Rightarrow> None) e st = Inr (req, st')"
    and L': "L' = L\<lparr>indexedDB := put_store ''entries'' st' (indexedDB L)\<rparr>"
    by (rule saveEntry_cases)
  from assms(1) st have "store_ok st" by (simp add: database_ok_def)
  then have "store_ok st'" using a by (rule add_store_ok)
  moreover have "distinct (objectStoreNames (indexedDB L'))"
    using assms(1) st L'
    by (simp add: database_ok_def objectStoreNames_put_store objectStore_Inr_name)
  ultimately show ?thesis
    using L' by (simp add: database_ok_def objectStore_put_store)
qed

lemma generator_above:
  "database_ok (indexedDB L) \<Longrightarrow> r \<in> set (stored L) \<Longrightarrow> id' r < generator L"
  by (auto simp: database_ok_def store_ok_def stored_def generator_def split: sum.splits)

lemma database_ok_distinct: "database_ok (indexedDB L) \<Longrightarrow> distinct (map id' (stored L))"
  by (auto simp: database_ok_def store_ok_def stored_def strict_sorted_iff split: sum.splits)

text \<open>A fresh database, once initialised, satisfies the invariant and is empty.\<close>

lemma init_new:
  "\<exists>L. LoggerDB_init None (new_LoggerDB new_database) = Inr L \<and> db L \<and>
        database_ok (indexedDB L) \<and> stored L = [] \<and> generator L = 1"
  by (simp add: LoggerDB_init_def new_LoggerDB_def new_database_def onupgradeneeded_def
      createObjectStore_def createIndex_def objectStore_def objectStoreNames_def indexNames_def
      put_store_def database_ok_def store_ok_def entries_schema_def stored_def generator_def)

text \<open>Opening the database again keeps the invariant and the records.\<close>

lemma init_database_ok:
  assumes "database_ok (indexedDB L)" and "LoggerDB_init fails L = Inr L'"
  shows "database_ok (indexedDB L') \<and> db L' \<and> stored L' = stored L"
proof -
  from assms(1) obtain st where "objectStore ''entries'' (indexedDB L) = Inr st"
    by (auto simp: database_ok_def split: sum.splits)
  then have "''entries'' \<in> set (objectStoreNames (indexedDB L))"
    by (rule objectStore_Inr_name)
  then have "onupgradeneeded (indexedDB L) = Inr (indexedDB L)"
    by (simp add: onupgradeneeded_def)
  with assms(2) have "objectStores (indexedDB L') = objectStores (indexedDB L)" and "db L'"
    by (auto simp: LoggerDB_init_def split: option.splits if_splits)
  with assms(1) show ?thesis
    by (simp add: database_ok_def objectStore_def objectStoreNames_def stored_def)
qed

lemmas example_defs =
  example_LoggerDB_def example_database_def example_records_def entries_schema_def

lemmas read_defs =
  LoggerDB_getRecentEntries_def objectStore_def get_index_def openCursor_prev_def
  index_records_def index_key_def

lemma example_ok: "database_ok (indexedDB example_LoggerDB)"
  by (simp add: example_defs database_ok_def store_ok_def objectStoreNames_def objectStore_def)

text \<open>With the store in place and no failure of the browser, a save stores the entry.\<close>

lemma LoggerDB_saveEntry_ok:
  assumes "database_ok (indexedDB L)" and "db L"
  shows "\<exists>L'. LoggerDB_saveEntry None e L = Inr (Done (generator L), L') \<and>
           stored L' = stored L @
             [\<lparr>type = type e, content = content e, timestamp = timestamp e,
               synced = synced e, id' = generator L\<rparr>] \<and>
           generator L' = Suc (generator L) \<and> db L' \<and> database_ok (indexedDB L')"
proof -
  from assms(1) obtain st where st: "objectStore ''entries'' (indexedDB L) = Inr st"
    and ok: "store_ok st"
    by (auto simp: database_ok_def split: sum.splits)
  let ?st' = "st\<lparr>records := records st @
                 [\<lparr>type = type e, content = content e, timestamp = timestamp e,
                   synced = synced e, id' = keyGenerator st\<rparr>],
             keyGenerator := keyGenerator st + 1\<rparr>"
  let ?L' = "L\<lparr>indexedDB := put_store ''entries'' ?st' (indexedDB L)\<rparr>"
  have s: "LoggerDB_saveEntry None e L = Inr (Done (generator L), ?L')"
    using assms(2) st by (simp add: LoggerDB_saveEntry_def add_ok[OF ok] generator_def)
  moreover have "stored ?L' = stored L @
             [\<lparr>type = type e, content = content e, timestamp = timestamp e,
               synced = synced e, id' = generator L\<rparr>]"
    using st by (simp add: stored_def generator_def objectStore_put_store)
  moreover have "generator ?L' = Suc (generator L)"
    using st by (simp add: generator_def objectStore_put_store)
  moreover have "db ?L'" using assms(2) by simp
  moreover have "database_ok (indexedDB ?L')"
    using assms(1) s by (rule saveEntry_database_ok)
  ultimately show ?thesis by blast
qed

section \<open>The recency query\<close>

lemma more_recent_key: "more_recent a b \<longleftrightarrow> recency_key b < recency_key a"
  by (auto simp: more_recent_def recency_key_def)

lemma get_index_timestamp:
  "store_ok st \<Longrightarrow>
   get_index ''timestamp'' st =
     Inr \<lparr>name = ''timestamp'', index_keyPath = ''timestamp'', unique = False\<rparr>"
  by (simp add: store_ok_def get_index_def entries_schema_def)

lemma index_records_timestamp:
  "index_keyPath ix = ''timestamp'' \<Longrightarrow> index_records ix st = sort_key recency_key (records st)"
  by (simp add: index_records_def index_key_def recency_key_def[abs_def])

text \<open>What the query returns when it returns: the head of the index, read backwards.\<close>

lemma getRecentEntries_ok:
  assumes "database_ok (indexedDB L)" and "db L"
  shows "LoggerDB_getRecentEntries None limit_arg L =
         Inr (take (nat (case limit_arg of None \<Rightarrow> 10 | Some l \<Rightarrow> l))
                (rev (sort_key recency_key (stored L))))"
proof -
  from assms(1) obtain st where st: "objectStore ''entries'' (indexedDB L) = Inr st"
    and ok: "store_ok st"
    by (auto simp: database_ok_def split: sum.splits)
  show ?thesis
    using assms(2) st
    by (simp add: LoggerDB_getRecentEntries_def get_index_timestamp[OF ok] openCursor_prev_def
        index_records_timestamp cursor_loop_take stored_def)
qed

lemma getRecentEntries_Inr:
  assumes "LoggerDB_getRecentEntries fails limit_arg L = Inr es"
  shows "db L \<and> fails = None"
  using assms by (auto simp: LoggerDB_getRecentEntries_def Let_def split: if_splits option.splits)

lemma recency_sorted:
  assumes "distinct (map id' rs)"
  shows "sorted_wrt more_recent (rev (sort_key recency_key rs))"
proof -
  have "inj_on recency_key (set rs)"
  proof (rule inj_onI)
    fix a b assume "a \<in> set rs" "b \<in> set rs" "recency_key a = recency_key b"
    then have "id' a = id' b" by (simp add: recency_key_def)
    with assms \<open>a \<in> set rs\<close> \<open>b \<in> set rs\<close> show "a = b"
      by (meson distinct_map inj_onD)
  qed
  moreover from assms have "distinct rs" by (simp add: distinct_map)
  ultimately have "distinct (map recency_key (sort_key recency_key rs))"
    by (simp add: distinct_map)
  moreover have "sorted (map recency_key (sort_key recency_key rs))" by simp
  ultimately have "sorted_wrt (<) (map recency_key (sort_key recency_key rs))"
    by (simp add: strict_sorted_iff)
  then have "sorted_wrt (\<lambda>a b. recency_key a < recency_key b) (sort_key recency_key rs)"
    by (simp add: sorted_wrt_map)
  then have "sorted_wrt (\<lambda>a b. recency_key b < recency_key a) (rev (sort_key recency_key rs))"
    by (simp add: sorted_wrt_rev)
  then show ?thesis by (simp add: more_recent_key[abs_def])
qed

text \<open>
  C1. Whatever the store holds and whatever the limit, the entries that
  \<open>getRecentEntries\<close> returns are in descending order of timestamp, and of two entries
  with the same timestamp the one with the higher id comes first.
\<close>

theorem listRecent_ordered:
  assumes "database_ok (indexedDB L)"
    and "LoggerDB_getRecentEntries fails limit_arg L = Inr es"
  shows "sorted_wrt more_recent es"
proof -
  from assms(2) have "db L" "fails = None" using getRecentEntries_Inr by blast+
  with assms have "es = take (nat (case limit_arg of None \<Rightarrow> 10 | Some l \<Rightarrow> l))
                (rev (sort_key recency_key (stored L)))"
    by (simp add: getRecentEntries_ok)
  moreover have "sorted_wrt more_recent (rev (sort_key recency_key (stored L)))"
    using assms(1) by (intro recency_sorted database_ok_distinct)
  ultimately show ?thesis by (simp add: sorted_wrt_take)
qed

theorem listRecent_ordered_witness:
  "database_ok (indexedDB example_LoggerDB) \<and>
   LoggerDB_getRecentEntries None (Some 2) example_LoggerDB =
     Inr [\<lparr>type = ''note'', content = ''Shift handover'',
           timestamp = ''2025-03-01T09:00:00.000Z'', synced = False, id' = 3\<rparr>,
          \<lparr>type = ''issue'', content = ''Fryer is down'',
           timestamp = ''2025-03-01T09:00:00.000Z'', synced = False, id' = 1\<rparr>] \<and>
   sorted_wrt more_recent
     [\<lparr>type = ''note'', content = ''Shift handover'',
       timestamp = ''2025-03-01T09:00:00.000Z'', synced = False, id' = 3\<rparr>,
      \<lparr>type = ''issue'', content = ''Fryer is down'',
       timestamp = ''2025-03-01T09:00:00.000Z'', synced = False, id' = 1\<rparr>]"
proof -
  have h1: "database_ok (indexedDB example_LoggerDB)" by (rule example_ok)
  have h2: "LoggerDB_getRecentEntries None (Some 2) example_LoggerDB =
     Inr [\<lparr>type = ''note'', content = ''Shift handover'',
           timestamp = ''2025-03-01T09:00:00.000Z'', synced = False, id' = 3\<rparr>,
          \<lparr>type = ''issue'', content = ''Fryer is down'',
           timestamp = ''2025-03-01T09:00:00.000Z'', synced = False, id' = 1\<rparr>]"
    by (simp add: example_defs read_defs)
  show ?thesis using h1 h2 listRecent_ordered[OF h1 h2] by simp
qed

text \<open>
  C2. With the store in place and no failure of the browser, \<open>getRecentEntries\<close> with a
  positive limit returns \<open>min(limit, number of stored entries)\<close> entries of the store:
  never more than \<open>limit\<close>, all of them when there are fewer, and the empty list, not an
  error, when the store is empty.
\<close>

theorem listRecent_length:
  assumes "database_ok (indexedDB L)" and "db L" and "0 < limit"
  shows "\<exists>es. LoggerDB_getRecentEntries None (Some limit) L = Inr es \<and>
           length es = min (nat limit) (length (stored L)) \<and>
           int (length es) \<le> limit \<and> set es \<subseteq> set (stored L) \<and>
           (stored L = [] \<longrightarrow> es = [])"
  using assms by (auto simp: getRecentEntries_ok dest: in_set_takeD)

theorem listRecent_length_witness:
  "database_ok (indexedDB example_LoggerDB) \<and> db example_LoggerDB \<and> (0::int) < 2 \<and>
   length (stored example_LoggerDB) = 3 \<and>
   (\<exists>es. LoggerDB_getRecentEntries None (Some 2) example_LoggerDB = Inr es \<and> length es = 2)"
proof -
  have h1: "database_ok (indexedDB example_LoggerDB)" by (rule example_ok)
  have h2: "db example_LoggerDB" by (simp add: example_LoggerDB_def)
  have h3: "(0::int) < 2" by simp
  have h4: "length (stored example_LoggerDB) = 3"
    by (simp add: example_defs stored_def objectStore_def)
  show ?thesis using h1 h2 h3 h4 listRecent_length[OF h1 h2 h3] by auto
qed

lemmas component_defs =
  saveEntry_def showToastMessage_def closeModal_def loadRecentEntries_def quickEntry_def
  logger_init_def new_logger_def

lemmas write_defs =
  LoggerDB_saveEntry_def add_def violates_unique_def put_store_def LoggerDB_init_def
  new_LoggerDB_def new_database_def onupgradeneeded_def createObjectStore_def createIndex_def
  objectStoreNames_def indexNames_def

section \<open>Saving an entry\<close>

text \<open>
  C4 (amended). When the store is in place, the browser does not fail the save, the text is
  not blank and the clock reading \<open>now\<close> is not before any stored timestamp, the entry
  just saved is the first element of \<open>getRecentEntries(n)\<close> for every \<open>n \<ge> 1\<close>.
\<close>

theorem append_then_listRecent:
  assumes ok: "database_ok (indexedDB (logger_db s))" and conn: "db (logger_db s)"
    and valid: "trim (entryText s) \<noteq> []"
    and clock: "\<forall>r \<in> set (stored (logger_db s)). timestamp r \<le> now"
    and n: "1 \<le> n"
  shows "\<exists>es. LoggerDB_getRecentEntries None (Some n)
                 (logger_db (saveEntry None read_fails now s)) =
           Inr (\<lparr>type = currentType s, content = trim (entryText s), timestamp = now,
                 synced = False, id' = generator (logger_db s)\<rparr> # es)"
proof -
  let ?e = "\<lparr>type = currentType s, content = trim (entryText s), timestamp = now, synced = False\<rparr>"
  let ?new = "\<lparr>type = currentType s, content = trim (entryText s), timestamp = now,
                 synced = False, id' = generator (logger_db s)\<rparr>"
  from LoggerDB_saveEntry_ok[OF ok conn, of ?e] obtain L' where
    save: "LoggerDB_saveEntry None ?e (logger_db s) = Inr (Done (generator (logger_db s)), L')"
    and st: "stored L' = stored (logger_db s) @ [?new]"
    and conn': "db L'" and ok': "database_ok (indexedDB L')"
    by auto
  have L': "logger_db (saveEntry None read_fails now s) = L'"
    using valid save
    by (simp add: saveEntry_def Let_def showToastMessage_def closeModal_def loadRecentEntries_def
        split: sum.splits)
  have "\<forall>r \<in> set (stored (logger_db s)). recency_key r < recency_key ?new"
    using clock generator_above[OF ok] by (auto simp: recency_key_def)
  then have "sort_key recency_key (stored L') = sort_key recency_key (stored (logger_db s)) @ [?new]"
    unfolding st by (rule sort_key_snoc)
  then have "rev (sort_key recency_key (stored L')) =
      ?new # rev (sort_key recency_key (stored (logger_db s)))"
    by simp
  moreover from n have "nat n = Suc (nat n - 1)" by linarith
  ultimately have "take (nat n) (rev (sort_key recency_key (stored L'))) =
      ?new # take (nat n - 1) (rev (sort_key recency_key (stored (logger_db s))))"
    by (metis take_Suc_Cons)
  then show ?thesis
    unfolding L' using getRecentEntries_ok[OF ok' conn', of "Some n"] by simp
qed

lemma example_logger_db: "logger_db example_logger = example_LoggerDB"
  by (simp add: example_logger_def)

lemma example_trim: "trim (entryText example_logger) = ''Restocked napkins''"
  by (simp add: example_logger_def trim_def isWhiteSpace_def)

lemma example_stored: "stored example_LoggerDB = example_records"
  by (simp add: example_defs stored_def objectStore_def)

theorem append_then_listRecent_witness:
  "database_ok (indexedDB (logger_db example_logger)) \<and> db (logger_db example_logger) \<and>
   trim (entryText example_logger) \<noteq> [] \<and>
   list_all (\<lambda>r. timestamp r \<le> ''2025-03-01T09:00:00.000Z'')
     (stored (logger_db example_logger)) \<and>
   (1::int) \<le> 1 \<and>
   (\<exists>es. LoggerDB_getRecentEntries None (Some 1)
       (logger_db (saveEntry None None ''2025-03-01T09:00:00.000Z'' example_logger)) =
     Inr (\<lparr>type = ''note'', content = ''Restocked napkins'',
           timestamp = ''2025-03-01T09:00:00.000Z'', synced = False, id' = 4\<rparr> # es))"
proof -
  have h1: "database_ok (indexedDB (logger_db example_logger))"
    by (simp add: example_logger_db example_ok)
  have h2: "db (logger_db example_logger)"
    by (simp add: example_logger_db example_LoggerDB_def)
  have h3: "trim (entryText example_logger) \<noteq> []" by (simp add: example_trim)
  have h4: "\<forall>r \<in> set (stored (logger_db example_logger)).
              timestamp r \<le> ''2025-03-01T09:00:00.000Z''"
    by (simp add: example_logger_db example_stored) (simp add: example_records_def)
  have h5: "(1::int) \<le> 1" by simp
  have g: "generator (logger_db example_logger) = 4"
    by (simp add: example_logger_db example_defs generator_def objectStore_def)
  have c: "currentType example_logger = ''note''" by (simp add: example_logger_def)
  show ?thesis
    using h1 h2 h3 h4 h5 append_then_listRecent[OF h1 h2 h3 h4 h5, of None]
    unfolding g c example_trim list_all_iff by blast
qed

text \<open>
  After the clock was set back, the entry just saved (id 4) is stored but an older entry
  with a later timestamp stays first.
\<close>

theorem append_then_listRecent_counterexample:
  "trim (entryText example_logger) = ''Restocked napkins'' \<and>
   stored (logger_db (saveEntry None None ''2025-03-01T08:00:00.000Z'' example_logger)) =
     example_records @
       [\<lparr>type = ''note'', content = ''Restocked napkins'',
         timestamp = ''2025-03-01T08:00:00.000Z'', synced = False, id' = 4\<rparr>] \<and>
   LoggerDB_getRecentEntries None (Some 1)
       (logger_db (saveEntry None None ''2025-03-01T08:00:00.000Z'' example_logger)) =
     Inr [\<lparr>type = ''note'', content = ''Shift handover'',
           timestamp = ''2025-03-01T09:00:00.000Z'', synced = False, id' = 3\<rparr>]"
  by (simp add: example_logger_def example_defs component_defs write_defs read_defs stored_def
      trim_def isWhiteSpace_def)

text \<open>
  C3. When the text is empty or consists of white space only, the component's
  \<open>saveEntry\<close> does nothing but show the message asking for text (its rejection of invalid
  input): the result is the same whatever the browser would do to a storage call, the
  \<open>LoggerDB\<close> and with it the size of the store are unchanged, and so is the list.
\<close>

theorem append_rejects_blank:
  assumes "\<forall>c \<in> set (entryText s). isWhiteSpace c"
  shows "saveEntry write_fault read_fails now s = showToastMessage ''Please enter some text'' s \<and>
         toastMessage (saveEntry write_fault read_fails now s) = ''Please enter some text'' \<and>
         logger_db (saveEntry write_fault read_fails now s) = logger_db s \<and>
         length (stored (logger_db (saveEntry write_fault read_fails now s))) =
           length (stored (logger_db s)) \<and>
         recentEntries (saveEntry write_fault read_fails now s) = recentEntries s"
proof -
  from assms have "trim (entryText s) = []" by (simp add: trim_empty_iff)
  then have "saveEntry write_fault read_fails now s = showToastMessage ''Please enter some text'' s"
    by (simp add: saveEntry_def)
  then show ?thesis by (simp add: showToastMessage_def)
qed

theorem append_rejects_blank_witness:
  "list_all isWhiteSpace (entryText (example_logger\<lparr>entryText := ''   ''\<rparr>)) \<and>
   toastMessage (saveEntry None None ''2025-03-01T09:05:00.000Z''
     (example_logger\<lparr>entryText := ''   ''\<rparr>)) = ''Please enter some text'' \<and>
   stored (logger_db (saveEntry None None ''2025-03-01T09:05:00.000Z''
     (example_logger\<lparr>entryText := ''   ''\<rparr>))) = example_records"
proof -
  have h: "\<forall>c \<in> set (entryText (example_logger\<lparr>entryText := ''   ''\<rparr>)). isWhiteSpace c"
    by (simp add: isWhiteSpace_def)
  show ?thesis
    using h append_rejects_blank[OF h, of None None "''2025-03-01T09:05:00.000Z''"]
    by (simp add: list_all_iff example_logger_db example_stored showToastMessage_def)
qed

text \<open>
  C5. From an empty database: after \<open>init\<close>, saving an issue with the text
  \<open>'  Spill in aisle 3  '\<close> stores one record with the trimmed content, \<open>synced\<close>
  false and id 1, and \<open>getRecentEntries(10)\<close> returns exactly that record.
\<close>

theorem spill_scenario:
  "stored (logger_db (saveEntry None None now
      ((quickEntry ''issue'' (logger_init None None (new_logger new_database)))
         \<lparr>entryText := ''  Spill in aisle 3  ''\<rparr>))) =
     [\<lparr>type = ''issue'', content = ''Spill in aisle 3'', timestamp = now, synced = False,
       id' = 1\<rparr>] \<and>
   LoggerDB_getRecentEntries None (Some 10)
     (logger_db (saveEntry None None now
        ((quickEntry ''issue'' (logger_init None None (new_logger new_database)))
           \<lparr>entryText := ''  Spill in aisle 3  ''\<rparr>))) =
     Inr [\<lparr>type = ''issue'', content = ''Spill in aisle 3'', timestamp = now, synced = False,
           id' = 1\<rparr>]"
  by (simp add: component_defs write_defs read_defs stored_def trim_def isWhiteSpace_def)

section \<open>Initialisation\<close>

lemma update_snoc:
  "k \<notin> fst ` set al \<Longrightarrow> AList.update k v (al @ [(k, w)]) = al @ [(k, v)]"
  by (induction al) auto

lemma map_of_snoc: "map_of al k = None \<Longrightarrow> map_of (al @ [(k, v)]) k = Some v"
  by (induction al) auto

lemma onupgradeneeded_cases:
  assumes "onupgradeneeded d = Inr d'"
  shows "(''entries'' \<in> set (objectStoreNames d) \<and> d' = d) \<or>
         (''entries'' \<notin> set (objectStoreNames d) \<and>
          current_version d' = current_version d \<and>
          objectStores d' = objectStores d @
            [(''entries'', \<lparr>keyPath = ''id'', autoIncrement = True, indexes = entries_schema,
                             records = [], keyGenerator = 1\<rparr>)])"
proof (cases "''entries'' \<in> set (objectStoreNames d)")
  case True
  with assms show ?thesis by (simp add: onupgradeneeded_def)
next
  case False
  let ?st0 = "\<lparr>keyPath = ''id'', autoIncrement = True, indexes = [], records = [],
               keyGenerator = Suc 0\<rparr>"
  let ?d1 = "d\<lparr>objectStores := objectStores d @ [(''entries'', ?st0)]\<rparr>"
  from False have none: "map_of (objectStores d) ''entries'' = None"
    by (simp add: objectStoreNames_def map_of_eq_None_iff)
  have c: "createObjectStore ''entries'' ''id'' True d = Inr ?d1"
    using False by (simp add: createObjectStore_def)
  have o: "objectStore ''entries'' ?d1 = Inr ?st0"
    using none by (simp add: objectStore_def map_of_snoc del: map_of_append)
  let ?st1 = "\<lparr>keyPath = ''id'', autoIncrement = True,
               indexes = [\<lparr>name = ''timestamp'', index_keyPath = ''timestamp'',
                          unique = False\<rparr>],
               records = [], keyGenerator = Suc 0\<rparr>"
  let ?st2 = "\<lparr>keyPath = ''id'', autoIncrement = True, indexes = entries_schema,
               records = [], keyGenerator = Suc 0\<rparr>"
  have i: "createIndex ''timestamp'' ''timestamp'' False ?st0 = Inr ?st1"
    by (simp add: createIndex_def indexNames_def)
  have j: "createIndex ''type'' ''type'' False ?st1 = Inr ?st2"
    by (simp add: createIndex_def indexNames_def entries_schema_def)
  have "onupgradeneeded d = Inr (put_store ''entries'' ?st2 ?d1)"
    using False by (simp add: onupgradeneeded_def c o i j)
  with assms have "d' = put_store ''entries'' ?st2 ?d1" by simp
  moreover from False have "''entries'' \<notin> fst ` set (objectStores d)"
    by (simp add: objectStoreNames_def)
  ultimately show ?thesis using False by (simp add: put_store_def update_snoc)
qed

lemma db_update_same: "db L \<Longrightarrow> L\<lparr>db := True\<rparr> = L"
  by (cases L) simp

text \<open>
  C6. Two calls of \<open>init\<close> in sequence: the second leaves the whole state as the first
  left it, schema and records alike; the first keeps the records that were stored, and
  object store names that were distinct stay distinct.
\<close>

theorem initialize_idempotent:
  assumes "LoggerDB_init f1 L = Inr L1" and "LoggerDB_init f2 L1 = Inr L2"
  shows "L2 = L1 \<and> stored L1 = stored L \<and>
         (distinct (objectStoreNames (indexedDB L)) \<longrightarrow>
            distinct (objectStoreNames (indexedDB L1)))"
proof -
  from assms(1) have f1: "f1 = None" by (auto simp: LoggerDB_init_def split: option.splits)
  from assms(2) have f2: "f2 = None" by (auto simp: LoggerDB_init_def split: option.splits)
  have v: "current_version (indexedDB L1) = version L1" and c: "db L1"
    using assms(1) f1
    by (auto simp: LoggerDB_init_def split: if_splits sum.splits)
  then have "L2 = L1" using assms(2) f2 by (simp add: LoggerDB_init_def db_update_same)
  moreover have "stored L1 = stored L \<and>
         (distinct (objectStoreNames (indexedDB L)) \<longrightarrow>
            distinct (objectStoreNames (indexedDB L1)))"
  proof (cases "current_version (indexedDB L) < version L")
    case False
    with assms(1) f1 show ?thesis
      by (auto simp: LoggerDB_init_def stored_def split: if_splits)
  next
    case True
    with assms(1) f1 obtain d where up: "onupgradeneeded (indexedDB L) = Inr d"
      and L1: "L1 = L\<lparr>db := True, indexedDB := d\<lparr>current_version := version L\<rparr>\<rparr>"
      by (auto simp: LoggerDB_init_def split: if_splits sum.splits)
    from onupgradeneeded_cases[OF up] show ?thesis
    proof
      assume "''entries'' \<in> set (objectStoreNames (indexedDB L)) \<and> d = indexedDB L"
      with L1 show ?thesis by (simp add: stored_def objectStore_def objectStoreNames_def)
    next
      assume new: "''entries'' \<notin> set (objectStoreNames (indexedDB L)) \<and>
          current_version d = current_version (indexedDB L) \<and>
          objectStores d = objectStores (indexedDB L) @
            [(''entries'', \<lparr>keyPath = ''id'', autoIncrement = True, indexes = entries_schema,
                             records = [], keyGenerator = 1\<rparr>)]"
      then have "map_of (objectStores (indexedDB L)) ''entries'' = None"
        by (simp add: objectStoreNames_def map_of_eq_None_iff)
      with new L1 show ?thesis
        by (simp add: stored_def objectStore_def objectStoreNames_def map_add_def)
    qed
  qed
  ultimately show ?thesis by simp
qed

theorem initialize_idempotent_witness:
  "LoggerDB_init None (new_LoggerDB example_database) = Inr example_LoggerDB \<and>
   LoggerDB_init None example_LoggerDB = Inr example_LoggerDB \<and>
   stored example_LoggerDB = stored (new_LoggerDB example_database) \<and>
   distinct (objectStoreNames (indexedDB (new_LoggerDB example_database))) \<and>
   distinct (objectStoreNames (indexedDB example_LoggerDB))"
proof -
  have h1: "LoggerDB_init None (new_LoggerDB example_database) = Inr example_LoggerDB"
    by (simp add: LoggerDB_init_def new_LoggerDB_def example_LoggerDB_def example_database_def)
  have h2: "LoggerDB_init None example_LoggerDB = Inr example_LoggerDB"
    by (simp add: LoggerDB_init_def example_LoggerDB_def example_database_def)
  have h3: "distinct (objectStoreNames (indexedDB (new_LoggerDB example_database)))"
    by (simp add: new_LoggerDB_def example_database_def objectStoreNames_def)
  show ?thesis using h1 h2 h3 initialize_idempotent[OF h1 h2] by simp
qed

text \<open>On a database that does not exist yet, \<open>init\<close> creates the schema.\<close>

lemma initialize_new:
  "LoggerDB_init None (new_LoggerDB new_database) =
     Inr \<lparr>dbName = ''PersonalLogger'', version = 1, db = True,
          indexedDB = \<lparr>current_version = 1, objectStores =
            [(''entries'', \<lparr>keyPath = ''id'', autoIncrement = True, indexes = entries_schema,
                             records = [], keyGenerator = 1\<rparr>)]\<rparr>\<rparr>"
  by (simp add: write_defs objectStore_def entries_schema_def)

section \<open>The limit of the recency query\<close>

text \<open>
  A limit of 0 or below returns no entry, where the omitted limit returns the three stored.
\<close>

theorem listRecent_limit_counterexample:
  "LoggerDB_getRecentEntries None (Some 0) example_LoggerDB = Inr [] \<and>
   LoggerDB_getRecentEntries None (Some (- 1)) example_LoggerDB = Inr [] \<and>
   LoggerDB_getRecentEntries None None example_LoggerDB =
     Inr [\<lparr>type = ''note'', content = ''Shift handover'',
           timestamp = ''2025-03-01T09:00:00.000Z'', synced = False, id' = 3\<rparr>,
          \<lparr>type = ''issue'', content = ''Fryer is down'',
           timestamp = ''2025-03-01T09:00:00.000Z'', synced = False, id' = 1\<rparr>,
          \<lparr>type = ''task'', content = ''Call supplier'',
           timestamp = ''2025-03-01T08:30:00.000Z'', synced = False, id' = 2\<rparr>]"
  by (simp add: example_defs read_defs)

text \<open>
  C7 (amended). The omitted limit is the limit 10, which returns up to 10 entries; a limit
  of 0 or below returns the empty list, neither the default number nor all entries.
\<close>

theorem listRecent_limit:
  assumes "database_ok (indexedDB L)" and "db L"
  shows "LoggerDB_getRecentEntries fails None L = LoggerDB_getRecentEntries fails (Some 10) L \<and>
         (\<exists>es. LoggerDB_getRecentEntries None None L = Inr es \<and>
                length es = min 10 (length (stored L))) \<and>
         (limit \<le> 0 \<longrightarrow> LoggerDB_getRecentEntries None (Some limit) L = Inr [])"
  using assms by (simp add: getRecentEntries_ok) (simp add: LoggerDB_getRecentEntries_def)

theorem listRecent_limit_witness:
  "database_ok (indexedDB example_LoggerDB) \<and> db example_LoggerDB \<and> (0::int) \<le> 0 \<and>
   LoggerDB_getRecentEntries None (Some 0) example_LoggerDB = Inr [] \<and>
   LoggerDB_getRecentEntries None None example_LoggerDB =
     LoggerDB_getRecentEntries None (Some 10) example_LoggerDB"
proof -
  have h1: "database_ok (indexedDB example_LoggerDB)" by (rule example_ok)
  have h2: "db example_LoggerDB" by (simp add: example_LoggerDB_def)
  show ?thesis using h1 h2 listRecent_limit[OF h1 h2, of None 0] by simp
qed

section \<open>Keys\<close>

lemma saveEntry_step_ids:
  assumes "LoggerDB_saveEntry f e L = Inr (req, L')"
  shows "map id' (stored L') = map id' (stored L) @ [generator L ..< generator L'] \<and>
         generator L \<le> generator L'"
proof -
  from assms obtain st st' where st: "objectStore ''entries'' (indexedDB L) = Inr st"
    and a: "add (case f of Some (Fails err) \<Rightarrow> Some err | _ \<Rightarrow> None) e st = Inr (req, st')"
    and L': "L' = L\<lparr>indexedDB := put_store ''entries'' st' (indexedDB L)\<rparr>"
    by (rule saveEntry_cases)
  have s: "stored L = records st" "generator L = keyGenerator st"
    "stored L' = records st'" "generator L' = keyGenerator st'"
    using st L' by (simp_all add: stored_def generator_def objectStore_put_store)
  show ?thesis
  proof (cases req)
    case (Failed err)
    with a have "st' = st" by (auto dest: add_failed)
    with s show ?thesis by simp
  next
    case (Done k)
    with a have "k = keyGenerator st" "keyGenerator st' = Suc k"
      "records st' = records st @
         [\<lparr>type = type e, content = content e, timestamp = timestamp e,
           synced = synced e, id' = k\<rparr>]"
      using add_done by blast+
    with s show ?thesis by simp
  qed
qed

lemma saveEntry_calls_ids:
  "map id' (stored (saveEntry_calls calls L)) =
     map id' (stored L) @ [generator L ..< generator (saveEntry_calls calls L)] \<and>
   generator L \<le> generator (saveEntry_calls calls L)"
proof (induction calls arbitrary: L)
  case Nil
  show ?case by simp
next
  case (Cons c calls)
  obtain f e where c: "c = (f, e)" by (cases c)
  show ?case
  proof (cases "LoggerDB_saveEntry f e L")
    case (Inl err)
    with c Cons.IH[of L] show ?thesis by simp
  next
    case (Inr p)
    obtain req L' where p: "p = (req, L')" by (cases p)
    from Inr p have step: "map id' (stored L') = map id' (stored L) @ [generator L ..< generator L']"
      "generator L \<le> generator L'"
      using saveEntry_step_ids by blast+
    have run: "saveEntry_calls (c # calls) L = saveEntry_calls calls L'"
      using c Inr p by simp
    from Cons.IH[of L'] have ih: "map id' (stored (saveEntry_calls calls L')) =
        map id' (stored L') @ [generator L' ..< generator (saveEntry_calls calls L')]"
      "generator L' \<le> generator (saveEntry_calls calls L')" by simp_all
    have "[generator L ..< generator L'] @ [generator L' ..< generator (saveEntry_calls calls L')] =
          [generator L ..< generator (saveEntry_calls calls L')]"
      using step(2) ih(2) by (metis le_Suc_ex upt_add_eq_append)
    with step ih show ?thesis unfolding run by simp
  qed
qed

lemma saveEntry_calls_database_ok:
  "database_ok (indexedDB L) \<Longrightarrow> database_ok (indexedDB (saveEntry_calls calls L))"
proof (induction calls arbitrary: L)
  case Nil
  then show ?case by simp
next
  case (Cons c calls)
  obtain f e where c: "c = (f, e)" by (cases c)
  show ?case
  proof (cases "LoggerDB_saveEntry f e L")
    case (Inl err)
    with c Cons show ?thesis by simp
  next
    case (Inr p)
    obtain req L' where p: "p = (req, L')" by (cases p)
    with Inr Cons.prems have "database_ok (indexedDB L')"
      by (simp add: saveEntry_database_ok)
    with c Inr p Cons.IH show ?thesis by simp
  qed
qed

lemma database_ok_sorted: "database_ok (indexedDB L) \<Longrightarrow> sorted_wrt (<) (map id' (stored L))"
  by (auto simp: database_ok_def store_ok_def stored_def split: sum.splits)

text \<open>
  C8. Over every run of \<open>LoggerDB.saveEntry\<close> calls, whatever entries the callers pass
  and whichever calls fail, the ids in the store are the ids that were there followed by
  the consecutive numbers the key generator gave out, in the order of the calls; on a
  database kept by this program they are strictly increasing, hence unique.
\<close>

theorem ids_unique_increasing:
  "map id' (stored (saveEntry_calls calls L)) =
     map id' (stored L) @ [generator L ..< generator (saveEntry_calls calls L)] \<and>
   (database_ok (indexedDB L) \<longrightarrow>
      sorted_wrt (<) (map id' (stored (saveEntry_calls calls L))) \<and>
      distinct (map id' (stored (saveEntry_calls calls L))))"
proof (intro conjI impI)
  show "map id' (stored (saveEntry_calls calls L)) =
     map id' (stored L) @ [generator L ..< generator (saveEntry_calls calls L)]"
    using saveEntry_calls_ids[of calls L] by blast
next
  assume "database_ok (indexedDB L)"
  then have ok: "database_ok (indexedDB (saveEntry_calls calls L))"
    by (rule saveEntry_calls_database_ok)
  from ok show "sorted_wrt (<) (map id' (stored (saveEntry_calls calls L)))"
    by (rule database_ok_sorted)
  from ok show "distinct (map id' (stored (saveEntry_calls calls L)))"
    by (rule database_ok_distinct)
qed

theorem ids_unique_increasing_witness:
  "database_ok (indexedDB example_LoggerDB) \<and>
   map id' (stored (saveEntry_calls
      [(None, \<lparr>type = ''task'', content = ''Restock supplies'',
                timestamp = ''2025-03-01T07:00:00.000Z'', synced = False\<rparr>),
       (Some (Fails QuotaExceededError),
              \<lparr>type = ''note'', content = ''lost'',
                timestamp = ''2025-03-01T09:10:00.000Z'', synced = False\<rparr>),
       (None, \<lparr>type = ''note'', content = ''Good performance'',
                timestamp = ''2025-03-01T09:20:00.000Z'', synced = False\<rparr>)]
      example_LoggerDB)) = [1, 2, 3, 4, 5] \<and>
   sorted_wrt (<) [1, 2, 3, 4, 5 :: nat]"
proof -
  let ?calls = "[(None, \<lparr>type = ''task'', content = ''Restock supplies'',
                timestamp = ''2025-03-01T07:00:00.000Z'', synced = False\<rparr>),
       (Some (Fails QuotaExceededError),
              \<lparr>type = ''note'', content = ''lost'',
                timestamp = ''2025-03-01T09:10:00.000Z'', synced = False\<rparr>),
       (None, \<lparr>type = ''note'', content = ''Good performance'',
                timestamp = ''2025-03-01T09:20:00.000Z'', synced = False\<rparr>)]"
  have h1: "database_ok (indexedDB example_LoggerDB)" by (rule example_ok)
  have h2: "map id' (stored (saveEntry_calls ?calls example_LoggerDB)) = [1, 2, 3, 4, 5]"
    by (simp add: example_defs write_defs objectStore_def stored_def)
  have "sorted_wrt (<) (map id' (stored (saveEntry_calls ?calls example_LoggerDB)))"
    using ids_unique_increasing[of ?calls example_LoggerDB] h1 by blast
  then have "sorted_wrt (<) [1, 2, 3, 4, 5 :: nat]" unfolding h2 .
  with h1 h2 show ?thesis by blast
qed

section \<open>Validation lives in the component\<close>

text \<open>
  C10. \<open>LoggerDB.saveEntry\<close> stores any entry as it is, adding only the id: blank or
  untrimmed content, any type, any timestamp, \<open>synced\<close> true. What the component stores
  is what \<open>LoggerDB.saveEntry\<close> makes of the entry that the component has trimmed,
  stamped with \<open>now\<close> and marked unsynced, and nothing when the text is blank.
\<close>

theorem storage_stores_verbatim:
  assumes "database_ok (indexedDB L)" and "db L"
  shows "(\<exists>L'. LoggerDB_saveEntry None e L = Inr (Done (generator L), L') \<and>
           stored L' = stored L @
             [\<lparr>type = type e, content = content e, timestamp = timestamp e,
               synced = synced e, id' = generator L\<rparr>]) \<and>
         logger_db (saveEntry write_fault read_fails now s) =
           (if trim (entryText s) = [] then logger_db s
            else case LoggerDB_saveEntry write_fault
                   \<lparr>type = currentType s, content = trim (entryText s), timestamp = now,
                    synced = False\<rparr> (logger_db s) of
                   Inl err \<Rightarrow> logger_db s
                 | Inr (req, L') \<Rightarrow> L')"
proof -
  have "logger_db (saveEntry write_fault read_fails now s) =
           (if trim (entryText s) = [] then logger_db s
            else case LoggerDB_saveEntry write_fault
                   \<lparr>type = currentType s, content = trim (entryText s), timestamp = now,
                    synced = False\<rparr> (logger_db s) of
                   Inl err \<Rightarrow> logger_db s
                 | Inr (req, L') \<Rightarrow> L')"
    by (simp add: saveEntry_def Let_def showToastMessage_def closeModal_def loadRecentEntries_def
        split: sum.splits)
  with LoggerDB_saveEntry_ok[OF assms, of e] show ?thesis by blast
qed

theorem storage_stores_verbatim_witness:
  "database_ok (indexedDB example_LoggerDB) \<and> db example_LoggerDB \<and>
   (\<exists>L'. LoggerDB_saveEntry None
       \<lparr>type = ''reminder'', content = ''  '', timestamp = ''yesterday'', synced = True\<rparr>
       example_LoggerDB = Inr (Done 4, L') \<and>
     stored L' = example_records @
       [\<lparr>type = ''reminder'', content = ''  '', timestamp = ''yesterday'', synced = True,
         id' = 4\<rparr>])"
proof -
  have h1: "database_ok (indexedDB example_LoggerDB)" by (rule example_ok)
  have h2: "db example_LoggerDB" by (simp add: example_LoggerDB_def)
  have g: "generator example_LoggerDB = 4"
    by (simp add: example_defs generator_def objectStore_def)
  show ?thesis
    using h1 h2 storage_stores_verbatim[OF h1 h2,
        of "\<lparr>type = ''reminder'', content = ''  '', timestamp = ''yesterday'', synced = True\<rparr>"]
    by (simp add: g example_stored)
qed

section \<open>Failed saves\<close>

text \<open>A failed request leaves the database as it was; an exception reaches the \<open>catch\<close>.\<close>

lemma LoggerDB_saveEntry_failed:
  assumes "LoggerDB_saveEntry f e L = Inr (Failed err, L')"
  shows "L' = L"
proof -
  from assms obtain st st' where st: "objectStore ''entries'' (indexedDB L) = Inr st"
    and a: "add (case f of Some (Fails err) \<Rightarrow> Some err | _ \<Rightarrow> None) e st = Inr (Failed err, st')"
    and L': "L' = L\<lparr>indexedDB := put_store ''entries'' st' (indexedDB L)\<rparr>"
    by (rule saveEntry_cases)
  from a have "st' = st" by (rule add_failed)
  with st L' show ?thesis by (simp add: put_store_same)
qed

lemma saveEntry_thrown:
  assumes "trim (entryText s) \<noteq> []"
    and "LoggerDB_saveEntry f
           \<lparr>type = currentType s, content = trim (entryText s), timestamp = now,
            synced = False\<rparr> (logger_db s) = Inl err"
  shows "saveEntry f read_fails now s =
           s\<lparr>isLoading := False, toastMessage := ''Failed to save entry'', showToast := True\<rparr>"
  using assms by (simp add: saveEntry_def Let_def showToastMessage_def)

text \<open>
  C9. When the request of \<open>add\<close> fails after \<open>LoggerDB.saveEntry\<close> has returned it, no
  record is stored, but the component takes the path of a successful save: it replaces
  its list by what the store holds, closes the modal and announces success.
\<close>

theorem failed_request_takes_success_path:
  "recentEntries stale_logger = [] \<and>
   stored (logger_db stale_logger) = example_records \<and>
   stored (logger_db (saveEntry (Some (Fails QuotaExceededError)) None
       ''2025-03-01T09:05:00.000Z'' stale_logger)) = example_records \<and>
   recentEntries (saveEntry (Some (Fails QuotaExceededError)) None
       ''2025-03-01T09:05:00.000Z'' stale_logger) =
     [\<lparr>type = ''note'', content = ''Shift handover'',
       timestamp = ''2025-03-01T09:00:00.000Z'', synced = False, id' = 3\<rparr>,
      \<lparr>type = ''issue'', content = ''Fryer is down'',
       timestamp = ''2025-03-01T09:00:00.000Z'', synced = False, id' = 1\<rparr>,
      \<lparr>type = ''task'', content = ''Call supplier'',
       timestamp = ''2025-03-01T08:30:00.000Z'', synced = False, id' = 2\<rparr>] \<and>
   toastMessage (saveEntry (Some (Fails QuotaExceededError)) None
       ''2025-03-01T09:05:00.000Z'' stale_logger) = ''Entry saved successfully'' \<and>
   showModal (saveEntry (Some (Fails QuotaExceededError)) None
       ''2025-03-01T09:05:00.000Z'' stale_logger) = False"
  by (simp add: stale_logger_def example_defs component_defs write_defs read_defs stored_def
      trim_def isWhiteSpace_def)

end
